theory Spec2Isabelle
  imports Main "HOL-Library.Word"
begin

unbundle bit_operations_syntax

section \<open>Constants\<close>

text \<open>
  The two table sizes are \<^verbatim>\<open>#define\<close>d in fswatcher.c. \<open>PATH_MAX\<close> and the
  \<open>IN_*\<close> bits come from the Linux headers \<^verbatim>\<open><limits.h>\<close> and
  \<^verbatim>\<open><sys/inotify.h>\<close>; their Linux values are written out here. The general theorems
  below use of \<open>PATH_MAX\<close> only that it is positive; the number is unfolded to evaluate
  concrete examples.
\<close>

definition MAX_CALLBACKS :: nat where
  "MAX_CALLBACKS = 20"

definition MAX_WATCHES :: nat where
  "MAX_WATCHES = 512"

definition PATH_MAX :: nat where
  "PATH_MAX = 4096"

definition IN_MODIFY :: "32 word" where
  "IN_MODIFY = 0x00000002"

definition IN_ATTRIB :: "32 word" where
  "IN_ATTRIB = 0x00000004"

definition IN_MOVED_FROM :: "32 word" where
  "IN_MOVED_FROM = 0x00000040"

definition IN_MOVED_TO :: "32 word" where
  "IN_MOVED_TO = 0x00000080"

definition IN_CREATE :: "32 word" where
  "IN_CREATE = 0x00000100"

definition IN_DELETE :: "32 word" where
  "IN_DELETE = 0x00000200"

definition IN_ISDIR :: "32 word" where
  "IN_ISDIR = 0x40000000"

text \<open>The event set \<open>add_watch\<close> passes to \<open>inotify_add_watch\<close>.\<close>

definition WATCH_MASK :: "32 word" where
  "WATCH_MASK = IN_CREATE OR IN_MODIFY OR IN_DELETE OR IN_MOVED_FROM OR IN_MOVED_TO OR IN_ATTRIB"

section \<open>Data\<close>

text \<open>
  A C string is modelled by the characters before its terminator. \<open>watch_info\<close> and
  \<open>callback_info\<close> are the two structs of fswatcher.c; a null \<open>pattern\<close> is \<open>None\<close>.
  The handler of a callback is a function pointer: its identity is a value of the type
  parameter \<open>'h\<close>.
\<close>

record watch_info =
  wd :: int
  path :: string

record 'h callback_info =
  mask :: "32 word"
  pattern :: "string option"
  callback :: 'h

text \<open>\<open>struct inotify_event\<close>, as the kernel delivers it in the read buffer.\<close>

record inotify_event =
  ev_wd :: int
  ev_mask :: "32 word"
  ev_cookie :: "32 word"
  ev_len :: "32 word"
  ev_name :: string

text \<open>
  The global variables. The array \<open>watches\<close> together with \<open>watch_count\<close> is the list
  of its first \<open>watch_count\<close> slots, and likewise for \<open>callbacks\<close> and \<open>patterns\<close>; the
  counters are the lengths of the lists.
\<close>

record 'h state =
  fd :: int
  daemon_mode :: bool
  recursive_mode :: bool
  watches :: "watch_info list"
  callbacks :: "'h callback_info list"
  patterns :: "string list"

definition watch_count :: "'h state \<Rightarrow> nat" where
  "watch_count s = length (watches s)"

definition callback_count :: "'h state \<Rightarrow> nat" where
  "callback_count s = length (callbacks s)"

definition pattern_count :: "'h state \<Rightarrow> nat" where
  "pattern_count s = length (patterns s)"

text \<open>
  The library and kernel calls whose results the program branches on are parameters:
  \<open>inotify_add_watch fd path mask\<close> returns a watch descriptor or a negative number, and
  \<open>fnmatch pattern string flags\<close> returns \<open>0\<close> on a match. Within one operation the
  kernel's answer depends on the path only, as it does for inotify while a directory stays
  watched; successive operations may be given different kernels.
\<close>

record sys =
  inotify_add_watch :: "int \<Rightarrow> string \<Rightarrow> 32 word \<Rightarrow> int"
  fnmatch :: "string \<Rightarrow> string \<Rightarrow> int \<Rightarrow> int"

text \<open>
  Every \<^verbatim>\<open>return -1\<close> of the source is tagged with the branch that took it;
  \<open>ret_int\<close> gives back the C return value.
\<close>

datatype error = CapacityExceeded | OsWatchError | RegistryFull

definition ret_int :: "error + int \<Rightarrow> int" where
  "ret_int r = (case r of Inl e \<Rightarrow> - 1 | Inr v \<Rightarrow> v)"

text \<open>
  What the program does to the outside, in order: a diagnostic line on a stream
  (\<open>syslog\<close> with its priority, \<open>stdout\<close> or \<open>stderr\<close>), a call of a registered handler,
  and the calls made by \<open>cleanup\<close>. The text produced by \<open>strerror\<close> is left out of the
  messages.
\<close>

datatype stream = Syslog_ERR | Syslog_WARNING | Syslog_INFO | Stdout | Stderr

datatype message =
    Max_watches_reached nat
  | Failed_to_add_watch string
  | Watching_directory string int
  | Failed_to_recursively_watch string
  | Added_watch_for_new_directory string
  | File_created string string
  | File_deleted string string
  | File_modified string string
  | File_moved_from string string
  | File_moved_to string string
  | Unknown_watch_descriptor int
  | Recursive_mode_enabled
  | Total_watches nat

datatype 'h effect =
    Print stream message
  | Invoke 'h string string
  | Inotify_rm_watch int int
  | Close int
  | Free "string option"

text \<open>The recurring \<^verbatim>\<open>if (daemon_mode) syslog(...) else printf(...)\<close>.\<close>

definition report :: "'h state \<Rightarrow> stream \<Rightarrow> stream \<Rightarrow> message \<Rightarrow> 'h effect" where
  "report s lg con m = Print (if daemon_mode s then lg else con) m"

section \<open>Callback registry\<close>

text \<open>\<open>strdup\<close> is taken to succeed, so the stored pattern is the pattern given.\<close>

definition register_callback ::
  "'h state \<Rightarrow> 32 word \<Rightarrow> string option \<Rightarrow> 'h \<Rightarrow> (error + int) \<times> 'h state" where
  "register_callback s event_mask pat cb =
     (if MAX_CALLBACKS \<le> callback_count s then (Inl RegistryFull, s)
      else (Inr (int (callback_count s)),
            s\<lparr>callbacks := callbacks s @ [\<lparr>mask = event_mask, pattern = pat, callback = cb\<rparr>]\<rparr>))"

section \<open>Watch registry\<close>

text \<open>
  \<open>strncpy(dst, path, PATH_MAX - 1)\<close> followed by \<open>dst[PATH_MAX - 1] = 0\<close> leaves the
  first \<open>PATH_MAX - 1\<close> characters of \<open>path\<close> in \<open>dst\<close>.
\<close>

definition add_watch ::
  "sys \<Rightarrow> 'h state \<Rightarrow> string \<Rightarrow> (error + int) \<times> 'h state \<times> 'h effect list" where
  "add_watch os s p =
     (if MAX_WATCHES \<le> watch_count s
      then (Inl CapacityExceeded, s, [report s Syslog_ERR Stderr (Max_watches_reached MAX_WATCHES)])
      else
        (let w = inotify_add_watch os (fd s) p WATCH_MASK in
         if w < 0
         then (Inl OsWatchError, s, [report s Syslog_ERR Stderr (Failed_to_add_watch p)])
         else (Inr w,
               s\<lparr>watches := watches s @ [\<lparr>wd = w, path = take (PATH_MAX - 1) p\<rparr>]\<rparr>,
               [report s Syslog_INFO Stdout (Watching_directory p w)])))"

primrec get_path_by_wd_loop :: "watch_info list \<Rightarrow> int \<Rightarrow> string option" where
  "get_path_by_wd_loop [] w = None"
| "get_path_by_wd_loop (x # xs) w =
     (if wd x = w then Some (path x) else get_path_by_wd_loop xs w)"

definition get_path_by_wd :: "'h state \<Rightarrow> int \<Rightarrow> string option" where
  "get_path_by_wd s w = get_path_by_wd_loop (watches s) w"

section \<open>Recursive installation\<close>

text \<open>
  \<open>nftw\<close> is the C library's. What it does is given by the walk: the entries it visits,
  each with the path, type flag and level it hands to the callback, and the value it
  returns when no callback stops it (\<open>- 1\<close> when the walk itself fails).
\<close>

datatype typeflag = FTW_F | FTW_D | FTW_DNR | FTW_NS | FTW_SL | FTW_DP | FTW_SLN

record visit =
  v_fpath :: string
  v_typeflag :: typeflag
  v_level :: int

record walk =
  visits :: "visit list"
  walk_rc :: int

definition ftw_callback ::
  "sys \<Rightarrow> 'h state \<Rightarrow> visit \<Rightarrow> int \<times> 'h state \<times> 'h effect list" where
  "ftw_callback os s v =
     (if v_typeflag v = FTW_D \<and> 0 \<le> v_level v
      then (case add_watch os s (v_fpath v) of (r, s', es) \<Rightarrow> (0, s', es))
      else (0, s, []))"

primrec nftw_calls ::
  "sys \<Rightarrow> 'h state \<Rightarrow> visit list \<Rightarrow> int \<times> 'h state \<times> 'h effect list" where
  "nftw_calls os s [] = (0, s, [])"
| "nftw_calls os s (v # vs) =
     (case ftw_callback os s v of (rc, s1, t1) \<Rightarrow>
        if rc \<noteq> 0 then (rc, s1, t1)
        else (case nftw_calls os s1 vs of (rc2, s2, t2) \<Rightarrow> (rc2, s2, t1 @ t2)))"

definition nftw :: "sys \<Rightarrow> 'h state \<Rightarrow> walk \<Rightarrow> int \<times> 'h state \<times> 'h effect list" where
  "nftw os s wk =
     (case nftw_calls os s (visits wk) of (rc, s', es) \<Rightarrow>
        if rc \<noteq> 0 then (rc, s', es) else (walk_rc wk, s', es))"

definition watch_recursively ::
  "sys \<Rightarrow> 'h state \<Rightarrow> string \<Rightarrow> walk \<Rightarrow> 'h state \<times> 'h effect list" where
  "watch_recursively os s p wk =
     (case nftw os s wk of (rc, s', es) \<Rightarrow>
        if rc = - 1
        then (s', es @ [report s Syslog_ERR Stderr (Failed_to_recursively_watch p)])
        else (s', es))"

text \<open>
  A directory tree, and the walk \<open>nftw\<close> makes of it without \<open>FTW_DEPTH\<close>: pre-order,
  the root at level \<open>0\<close> under the path given to \<open>nftw\<close>, every other entry under its
  parent's path, a slash and its name.
\<close>

datatype fs_tree = File string | Dir string "fs_tree list"

fun node_name :: "fs_tree \<Rightarrow> string" where
  "node_name (File n) = n"
| "node_name (Dir n ts) = n"

fun walk_tree :: "string \<Rightarrow> int \<Rightarrow> fs_tree \<Rightarrow> visit list" where
  "walk_tree p l (File n) = [\<lparr>v_fpath = p, v_typeflag = FTW_F, v_level = l\<rparr>]"
| "walk_tree p l (Dir n ts) =
     \<lparr>v_fpath = p, v_typeflag = FTW_D, v_level = l\<rparr>
       # concat (map (\<lambda>t. walk_tree (p @ ''/'' @ node_name t) (l + 1) t) ts)"

definition nftw_walk :: "string \<Rightarrow> fs_tree \<Rightarrow> walk" where
  "nftw_walk p t = \<lparr>visits = walk_tree p 0 t, walk_rc = 0\<rparr>"

fun dirs :: "fs_tree \<Rightarrow> nat" where
  "dirs (File n) = 0"
| "dirs (Dir n ts) = Suc (sum_list (map dirs ts))"

section \<open>Pattern matcher\<close>

primrec matches_pattern_loop :: "(string \<Rightarrow> string \<Rightarrow> int \<Rightarrow> int) \<Rightarrow> string list \<Rightarrow> string \<Rightarrow> bool" where
  "matches_pattern_loop fnm [] filename = False"
| "matches_pattern_loop fnm (p # ps) filename =
     (if fnm p filename 0 = 0 then True else matches_pattern_loop fnm ps filename)"

definition matches_pattern :: "sys \<Rightarrow> 'h state \<Rightarrow> string \<Rightarrow> bool" where
  "matches_pattern os s filename =
     (if pattern_count s = 0 then True
      else matches_pattern_loop (fnmatch os) (patterns s) filename)"

section \<open>Event processing\<close>

text \<open>\<open>snprintf(full_path, PATH_MAX, "%s/%s", path, filename)\<close>.\<close>

definition full_path :: "string \<Rightarrow> string \<Rightarrow> string" where
  "full_path p filename = take (PATH_MAX - 1) (p @ ''/'' @ filename)"

text \<open>The five event lines, printed by \<open>process_event\<close> to syslog and by \<open>main\<close> to stdout.\<close>

definition event_lines :: "stream \<Rightarrow> 32 word \<Rightarrow> string \<Rightarrow> string \<Rightarrow> 'h effect list" where
  "event_lines st event_mask p filename =
     (if event_mask AND IN_CREATE \<noteq> 0 then [Print st (File_created p filename)] else [])
     @ (if event_mask AND IN_DELETE \<noteq> 0 then [Print st (File_deleted p filename)] else [])
     @ (if event_mask AND IN_MODIFY \<noteq> 0 then [Print st (File_modified p filename)] else [])
     @ (if event_mask AND IN_MOVED_FROM \<noteq> 0 then [Print st (File_moved_from p filename)] else [])
     @ (if event_mask AND IN_MOVED_TO \<noteq> 0 then [Print st (File_moved_to p filename)] else [])"

text \<open>The loop over the callback table at the end of \<open>process_event\<close>.\<close>

primrec run_callbacks ::
  "(string \<Rightarrow> string \<Rightarrow> int \<Rightarrow> int) \<Rightarrow> 'h callback_info list \<Rightarrow> 32 word \<Rightarrow> string \<Rightarrow> string
     \<Rightarrow> 'h effect list" where
  "run_callbacks fnm [] event_mask p filename = []"
| "run_callbacks fnm (c # cs) event_mask p filename =
     (if mask c AND event_mask \<noteq> 0
      then (if pattern c = None \<or> fnm (the (pattern c)) filename 0 = 0
            then [Invoke (callback c) p filename] else [])
      else [])
     @ run_callbacks fnm cs event_mask p filename"

definition process_event ::
  "sys \<Rightarrow> 'h state \<Rightarrow> 32 word \<Rightarrow> string \<Rightarrow> string \<Rightarrow> 'h state \<times> 'h effect list" where
  "process_event os s event_mask p filename =
     (case (if recursive_mode s \<and> event_mask AND IN_CREATE \<noteq> 0 \<and> event_mask AND IN_ISDIR \<noteq> 0
            then (case add_watch os s (full_path p filename) of (r, s', es) \<Rightarrow>
                    (s', es @ [report s Syslog_INFO Stdout
                                 (Added_watch_for_new_directory (full_path p filename))]))
            else (s, []))
      of (s1, t1) \<Rightarrow>
        (s1,
         t1
         @ (if daemon_mode s then event_lines Syslog_INFO event_mask p filename else [])
         @ run_callbacks (fnmatch os) (callbacks s1) event_mask p filename))"

text \<open>
  The body of the inner \<^verbatim>\<open>while (i < length)\<close> of \<open>main\<close> for one event of the buffer,
  and the loop itself over the events the buffer holds.
\<close>

definition handle_event :: "sys \<Rightarrow> 'h state \<Rightarrow> inotify_event \<Rightarrow> 'h state \<times> 'h effect list" where
  "handle_event os s e =
     (if ev_len e \<noteq> 0
      then (case get_path_by_wd s (ev_wd e) of
              Some p \<Rightarrow>
                if matches_pattern os s (ev_name e)
                then (case process_event os s (ev_mask e) p (ev_name e) of (s', es) \<Rightarrow>
                        (s', es @ (if \<not> daemon_mode s
                                   then event_lines Stdout (ev_mask e) p (ev_name e) else [])))
                else (s, [])
            | None \<Rightarrow> (s, [report s Syslog_WARNING Stderr (Unknown_watch_descriptor (ev_wd e))]))
      else (s, []))"

primrec handle_events ::
  "sys \<Rightarrow> 'h state \<Rightarrow> inotify_event list \<Rightarrow> 'h state \<times> 'h effect list" where
  "handle_events os s [] = (s, [])"
| "handle_events os s (e # es) =
     (case handle_event os s e of (s1, t1) \<Rightarrow>
        (case handle_events os s1 es of (s2, t2) \<Rightarrow> (s2, t1 @ t2)))"

section \<open>Cleanup\<close>

text \<open>
  \<open>free\<close> of a null pointer does nothing; \<open>free\<close> of a block that has been freed before is
  undefined behaviour. A pattern that is not null is a block of its own, made by \<open>strdup\<close>
  in \<open>register_callback\<close> for one slot of the table, and no slot is written twice: a block
  is named by the index of its slot. The allocator's side of the patterns is the list of
  flags that says, slot by slot, whether the block has been freed (a missing flag means
  not freed). \<open>cleanup\<close> is the only function that frees, and the program calls it from
  \<open>exit\<close>, after the last event.
\<close>

datatype fault = Double_free

primrec rm_watches :: "int \<Rightarrow> watch_info list \<Rightarrow> 'h effect list" where
  "rm_watches f [] = []"
| "rm_watches f (x # xs) = Inotify_rm_watch f (wd x) # rm_watches f xs"

text \<open>
  The loop over the patterns: the calls of \<open>free\<close> made, and the flags afterwards, or
  \<open>None\<close> when the loop has run into a block that was already freed.
\<close>

primrec free_patterns ::
  "bool list \<Rightarrow> 'h callback_info list \<Rightarrow> 'h effect list \<times> bool list option" where
  "free_patterns freed [] = ([], Some [])"
| "free_patterns freed (c # cs) =
     (case pattern c of
        None \<Rightarrow>
          (case free_patterns (tl freed) cs of (es, r) \<Rightarrow>
             (Free None # es, map_option (\<lambda>fl. (freed \<noteq> [] \<and> hd freed) # fl) r))
      | Some q \<Rightarrow>
          if freed \<noteq> [] \<and> hd freed then ([], None)
          else (case free_patterns (tl freed) cs of (es, r) \<Rightarrow>
                  (Free (Some q) # es, map_option (\<lambda>fl. True # fl) r)))"

text \<open>
  \<open>cleanup\<close>: the calls made in order, and then either the state and the flags it leaves
  or the fault it ran into. It assigns to no global variable.
\<close>

definition cleanup ::
  "bool list \<Rightarrow> 'h state \<Rightarrow> 'h effect list \<times> (fault + 'h state \<times> bool list)" where
  "cleanup freed s =
     (case free_patterns freed (callbacks s) of (es, r) \<Rightarrow>
        (rm_watches (fd s) (watches s)
           @ (if 0 \<le> fd s then [Close (fd s)] else [])
           @ es,
         case r of None \<Rightarrow> Inl Double_free | Some fl \<Rightarrow> Inr (s, fl)))"

section \<open>Start-up of the watches in \<open>main\<close>\<close>

text \<open>
  The initial watch and, in recursive mode, the walk of the subtree. The first component
  is the exit status when \<open>main\<close> leaves through \<open>exit(EXIT_FAILURE)\<close>.
\<close>

definition install_initial ::
  "sys \<Rightarrow> 'h state \<Rightarrow> string \<Rightarrow> walk \<Rightarrow> int option \<times> 'h state \<times> 'h effect list" where
  "install_initial os s watch_path wk =
     (case add_watch os s watch_path of (r, s1, t1) \<Rightarrow>
        if ret_int r < 0 then (Some 1, s1, t1)
        else if recursive_mode s1
        then (case watch_recursively os s1 watch_path wk of (s2, t2) \<Rightarrow>
                (None, s2,
                 t1 @ (if \<not> daemon_mode s1 then [Print Stdout Recursive_mode_enabled] else [])
                    @ t2
                    @ (if \<not> daemon_mode s1 then [Print Stdout (Total_watches (watch_count s2))] else [])))
        else (None, s1, t1))"

section \<open>Observations on the effects\<close>

primrec is_invoke :: "'h effect \<Rightarrow> bool" where
  "is_invoke (Print st m) = False"
| "is_invoke (Invoke h p f) = True"
| "is_invoke (Inotify_rm_watch f w) = False"
| "is_invoke (Close f) = False"
| "is_invoke (Free q) = False"

text \<open>
  The dispatch condition as the contract words it: the masks intersect, and the entry's
  pattern is absent or matches the file name. It is compared below with what the loop
  \<open>run_callbacks\<close> of the source does.
\<close>

definition fires ::
  "(string \<Rightarrow> string \<Rightarrow> int \<Rightarrow> int) \<Rightarrow> 32 word \<Rightarrow> string \<Rightarrow> 'h callback_info \<Rightarrow> bool" where
  "fires fnm event_mask filename c =
     (mask c AND event_mask \<noteq> 0
      \<and> (case pattern c of None \<Rightarrow> True | Some q \<Rightarrow> fnm q filename 0 = 0))"

section \<open>Concrete instances for the examples\<close>

text \<open>
  An instance of the \<open>fnmatch\<close> parameter for the examples: literal characters, \<open>?\<close> for
  one character and \<open>*\<close> for any run of characters, matched against the whole string.
\<close>

fun glob :: "string \<Rightarrow> string \<Rightarrow> bool" where
  "glob [] [] = True"
| "glob [] (c # cs) = False"
| "glob (q # qs) [] = (q = CHR ''*'' \<and> glob qs [])"
| "glob (q # qs) (c # cs) =
     (if q = CHR ''*'' then glob qs (c # cs) \<or> glob (q # qs) cs
      else (q = CHR ''?'' \<or> q = c) \<and> glob qs cs)"

text \<open>The three example handlers that \<open>main\<close> registers.\<close>

datatype handler = On_file_created | On_file_deleted | On_file_modified

text \<open>
  A kernel that knows two directories and refuses every other path. \<open>/tmp/w/\<close> is another
  spelling of \<open>/tmp/w\<close>: it names the same directory and gets the same descriptor.
\<close>

definition example_sys :: sys where
  "example_sys =
     \<lparr>inotify_add_watch =
        (\<lambda>f p m. if p = ''/tmp/w'' \<or> p = ''/tmp/w/'' then 1
                  else if p = ''/tmp/w/sub'' then 2 else - 1),
      fnmatch = (\<lambda>q f flags. if glob q f then 0 else 1)\<rparr>"

text \<open>
  The program started as \<^verbatim>\<open>fswatcher -r /tmp/w "*.log"\<close>, after the initial watch,
  and a program whose two tables are full.
\<close>

definition example_state :: "handler state" where
  "example_state =
     \<lparr>fd = 3, daemon_mode = False, recursive_mode = True,
      watches = [\<lparr>wd = 1, path = ''/tmp/w''\<rparr>],
      callbacks = [\<lparr>mask = IN_CREATE, pattern = None, callback = On_file_created\<rparr>,
                   \<lparr>mask = IN_DELETE, pattern = None, callback = On_file_deleted\<rparr>,
                   \<lparr>mask = IN_MODIFY, pattern = None, callback = On_file_modified\<rparr>],
      patterns = [''*.log'']\<rparr>"

definition full_state :: "handler state" where
  "full_state =
     \<lparr>fd = 3, daemon_mode = False, recursive_mode = False,
      watches = replicate 512 \<lparr>wd = 1, path = ''/tmp/w''\<rparr>,
      callbacks = replicate 20 \<lparr>mask = IN_CREATE, pattern = None, callback = On_file_created\<rparr>,
      patterns = []\<rparr>"

definition long_name :: string where
  "long_name = replicate 4096 CHR ''a''"

section \<open>Callers and the kernel\<close>

text \<open>A caller that installs the given paths one after the other, and the test for success.\<close>

primrec add_watches :: "sys \<Rightarrow> 'h state \<Rightarrow> string list \<Rightarrow> (error + int) list \<times> 'h state" where
  "add_watches os s [] = ([], s)"
| "add_watches os s (p # ps) =
     (case add_watch os s p of (r, s1, t1) \<Rightarrow>
        (case add_watches os s1 ps of (rs, s2) \<Rightarrow> (r # rs, s2)))"

definition succeeded :: "error + int \<Rightarrow> bool" where
  "succeeded r = (case r of Inl e \<Rightarrow> False | Inr w \<Rightarrow> True)"

text \<open>
  The descriptors stored in the table, and the visits for which \<open>ftw_callback\<close> calls
  \<open>add_watch\<close>.
\<close>

definition handles :: "'h state \<Rightarrow> int set" where
  "handles s = wd ` set (watches s)"

definition is_dir_visit :: "visit \<Rightarrow> bool" where
  "is_dir_visit v = (v_typeflag v = FTW_D \<and> 0 \<le> v_level v)"

text \<open>
  Linux refuses a path of \<open>PATH_MAX\<close> characters or more (\<open>ENAMETOOLONG\<close>) before it
  looks at the file system. A kernel of the model that does so:
\<close>

definition refuses_long_paths :: "sys \<Rightarrow> bool" where
  "refuses_long_paths os = (\<forall>f p m. PATH_MAX \<le> length p \<longrightarrow> inotify_add_watch os f p m < 0)"

text \<open>The flags after a first \<open>cleanup\<close>: the slots that hold a pattern.\<close>

definition pattern_blocks :: "'h state \<Rightarrow> bool list" where
  "pattern_blocks s = map (\<lambda>c. pattern c \<noteq> None) (callbacks s)"

text \<open>
  The event the kernel sends when the directory \<open>sub\<close> is created under watch \<open>1\<close>, and
  the program of \<open>example_state\<close> with a pattern on its second callback.
\<close>

definition new_directory_event :: inotify_event where
  "new_directory_event =
     \<lparr>ev_wd = 1, ev_mask = IN_CREATE OR IN_ISDIR, ev_cookie = 0, ev_len = 16, ev_name = ''sub''\<rparr>"

definition pattern_state :: "handler state" where
  "pattern_state =
     example_state\<lparr>callbacks :=
       [\<lparr>mask = IN_CREATE, pattern = None, callback = On_file_created\<rparr>,
        \<lparr>mask = IN_DELETE, pattern = Some ''*.log'', callback = On_file_deleted\<rparr>,
        \<lparr>mask = IN_MODIFY, pattern = Some ''*.txt'', callback = On_file_modified\<rparr>]\<rparr>"

section \<open>Properties\<close>

subsection \<open>Auxiliary facts\<close>

lemma matches_pattern_loop_iff:
  "matches_pattern_loop fnm ps f = (\<exists>q\<in>set ps. fnm q f 0 = 0)"
  by (induction ps) auto

lemma add_watch_callbacks: "callbacks (fst (snd (add_watch os s p))) = callbacks s"
  by (simp add: add_watch_def Let_def)

lemma add_watch_no_invoke: "filter is_invoke (snd (snd (add_watch os s p))) = []"
  by (simp add: add_watch_def Let_def report_def)

lemma event_lines_no_invoke: "filter is_invoke (event_lines st m p f) = []"
  by (simp add: event_lines_def)

lemma run_callbacks_fires:
  "run_callbacks fnm cs m p f = map (\<lambda>c. Invoke (callback c) p f) (filter (fires fnm m f) cs)"
  by (induction cs) (auto simp: fires_def split: option.splits)

lemma run_callbacks_all_invoke:
  "filter is_invoke (run_callbacks fnm cs m p f) = run_callbacks fnm cs m p f"
  by (induction cs) auto

lemma get_path_by_wd_loop_append:
  "get_path_by_wd_loop (xs @ ys) w =
     (case get_path_by_wd_loop xs w of None \<Rightarrow> get_path_by_wd_loop ys w | Some q \<Rightarrow> Some q)"
  by (induction xs) auto

lemma get_path_by_wd_loop_None: "(get_path_by_wd_loop xs w = None) = (w \<notin> wd ` set xs)"
  by (induction xs) auto

lemma get_path_by_wd_loop_distinct:
  "distinct (map wd xs) \<Longrightarrow> x \<in> set xs \<Longrightarrow> get_path_by_wd_loop xs (wd x) = Some (path x)"
  by (induction xs) auto

lemma add_watch_ok:
  "watch_count s < MAX_WATCHES \<Longrightarrow> 0 \<le> inotify_add_watch os (fd s) p WATCH_MASK \<Longrightarrow>
   add_watch os s p =
     (Inr (inotify_add_watch os (fd s) p WATCH_MASK),
      s\<lparr>watches := watches s @ [\<lparr>wd = inotify_add_watch os (fd s) p WATCH_MASK,
                                   path = take (PATH_MAX - 1) p\<rparr>]\<rparr>,
      [report s Syslog_INFO Stdout (Watching_directory p (inotify_add_watch os (fd s) p WATCH_MASK))])"
  by (simp add: add_watch_def Let_def)

lemma full_path_length: "length (full_path p f) \<le> PATH_MAX - Suc 0"
  by (simp add: full_path_def)

lemma process_event_state:
  "recursive_mode s \<Longrightarrow> m AND IN_CREATE \<noteq> 0 \<Longrightarrow> m AND IN_ISDIR \<noteq> 0 \<Longrightarrow>
   fst (process_event os s m p f) = fst (snd (add_watch os s (full_path p f)))"
  by (simp add: process_event_def split: prod.splits)

lemma add_watch_length:
  "length (watches (fst (snd (add_watch os s p))))
     = length (watches s) + (if succeeded (fst (add_watch os s p)) then 1 else 0)"
  by (simp add: add_watch_def Let_def succeeded_def)

lemma add_watches_length:
  "length (watches (snd (add_watches os s ps)))
     = length (watches s) + length (filter succeeded (fst (add_watches os s ps)))"
proof (induction ps arbitrary: s)
  case Nil
  then show ?case by simp
next
  case (Cons p ps)
  obtain r s1 t1 where aw: "add_watch os s p = (r, s1, t1)"
    by (cases "add_watch os s p") auto
  obtain rs s2 where aws: "add_watches os s1 ps = (rs, s2)"
    by (cases "add_watches os s1 ps") auto
  have "length (watches s1) = length (watches s) + (if succeeded r then 1 else 0)"
    using add_watch_length [of os s p] aw by simp
  moreover have "length (watches s2) = length (watches s1) + length (filter succeeded rs)"
    using Cons.IH [of s1] aws by simp
  ultimately show ?case
    by (simp add: aw aws)
qed

lemma add_watch_fd: "fd (fst (snd (add_watch os s p))) = fd s"
  by (simp add: add_watch_def Let_def)

lemma ftw_callback_rc: "fst (ftw_callback os s v) = 0"
  by (simp add: ftw_callback_def split: prod.splits)

lemma watch_recursively_state:
  "fst (watch_recursively os s p wk) = fst (snd (nftw_calls os s (visits wk)))"
  by (simp add: watch_recursively_def nftw_def split: prod.splits)

lemma filter_concat_length:
  "length (filter P (concat (map f ts))) = sum_list (map (\<lambda>t. length (filter P (f t))) ts)"
  by (induction ts) auto

lemma walk_tree_dirs:
  "0 \<le> l \<Longrightarrow> length (filter is_dir_visit (walk_tree p l t)) = dirs t"
proof (induction t arbitrary: p l)
  case (File n)
  then show ?case by (simp add: is_dir_visit_def)
next
  case (Dir n ts)
  have ih: "\<And>t. t \<in> set ts \<Longrightarrow>
      length (filter is_dir_visit (walk_tree (p @ CHR ''/'' # node_name t) (l + 1) t)) = dirs t"
    using Dir.IH Dir.prems by simp
  have eq: "sum_list (map (\<lambda>t. length (filter is_dir_visit
                (walk_tree (p @ CHR ''/'' # node_name t) (l + 1) t))) ts)
      = sum_list (map dirs ts)"
    by (rule arg_cong [where f = sum_list]) (simp add: ih cong: map_cong)
  have hd: "is_dir_visit \<lparr>v_fpath = p, v_typeflag = FTW_D, v_level = l\<rparr>"
    using Dir.prems by (simp add: is_dir_visit_def)
  show ?case
    by (simp add: filter_concat_length eq hd)
qed

lemma nftw_calls_count:
  "\<forall>v\<in>set vs. is_dir_visit v \<longrightarrow> 0 \<le> inotify_add_watch os (fd s) (v_fpath v) WATCH_MASK \<Longrightarrow>
   length (watches s) + length (filter is_dir_visit vs) \<le> MAX_WATCHES \<Longrightarrow>
   length (watches (fst (snd (nftw_calls os s vs))))
     = length (watches s) + length (filter is_dir_visit vs)"
proof (induction vs arbitrary: s)
  case Nil
  then show ?case by simp
next
  case (Cons v vs)
  obtain rc s1 t1 where fc: "ftw_callback os s v = (rc, s1, t1)"
    by (cases "ftw_callback os s v") auto
  have rc: "rc = 0"
    using ftw_callback_rc [of os s v] fc by simp
  obtain rc2 s2 t2 where nc: "nftw_calls os s1 vs = (rc2, s2, t2)"
    by (cases "nftw_calls os s1 vs") auto
  have fd1: "fd s1 = fd s"
    using fc add_watch_fd [of os s "v_fpath v"]
    by (auto simp: ftw_callback_def split: if_splits prod.splits)
  have l1: "length (watches s1) = length (watches s) + (if is_dir_visit v then 1 else 0)"
  proof (cases "is_dir_visit v")
    case True
    then have ok: "0 \<le> inotify_add_watch os (fd s) (v_fpath v) WATCH_MASK"
      using Cons.prems(1) by simp
    have cap: "watch_count s < MAX_WATCHES"
      using Cons.prems(2) True by (simp add: watch_count_def)
    show ?thesis
      using fc True by (auto simp: ftw_callback_def is_dir_visit_def add_watch_ok [OF cap ok])
  next
    case False
    then show ?thesis
      using fc by (auto simp: ftw_callback_def is_dir_visit_def)
  qed
  have cap1: "length (watches s1) + length (filter is_dir_visit vs) \<le> MAX_WATCHES"
    using Cons.prems(2) l1 by (simp split: if_splits)
  have acc1: "\<forall>v\<in>set vs. is_dir_visit v \<longrightarrow> 0 \<le> inotify_add_watch os (fd s1) (v_fpath v) WATCH_MASK"
    using Cons.prems(1) fd1 by simp
  have "length (watches s2) = length (watches s1) + length (filter is_dir_visit vs)"
    using Cons.IH [OF acc1 cap1] nc by simp
  then show ?case
    using l1 by (simp add: fc rc nc)
qed

lemma watch_recursively_installs_every_directory:
  assumes "\<forall>v\<in>set (walk_tree p 0 t). 0 \<le> inotify_add_watch os (fd s) (v_fpath v) WATCH_MASK"
    and "watch_count s + dirs t \<le> MAX_WATCHES"
  shows "watch_count (fst (watch_recursively os s p (nftw_walk p t))) = watch_count s + dirs t"
  using assms nftw_calls_count [of "walk_tree p 0 t" os s]
  by (simp add: watch_recursively_state nftw_walk_def watch_count_def walk_tree_dirs)

lemma add_watch_grows:
  "\<exists>ys. watches (fst (snd (add_watch os s p))) = watches s @ ys \<and> length ys \<le> 1"
  by (simp add: add_watch_def Let_def)

lemma ftw_callback_grows:
  "\<exists>ys. watches (fst (snd (ftw_callback os s v))) = watches s @ ys
        \<and> length ys \<le> (if is_dir_visit v then 1 else 0)"
  using add_watch_grows [of os s "v_fpath v"]
  by (auto simp: ftw_callback_def is_dir_visit_def split: prod.splits)

lemma ftw_callback_fd: "fd (fst (snd (ftw_callback os s v))) = fd s"
  using add_watch_fd [of os s "v_fpath v"]
  by (auto simp: ftw_callback_def split: prod.splits)

lemma nftw_calls_grows:
  "\<exists>ys. watches (fst (snd (nftw_calls os s vs))) = watches s @ ys"
proof (induction vs arbitrary: s)
  case Nil
  then show ?case by simp
next
  case (Cons v vs)
  obtain rc s1 t1 where fc: "ftw_callback os s v = (rc, s1, t1)"
    by (cases "ftw_callback os s v") auto
  obtain rc2 s2 t2 where nc: "nftw_calls os s1 vs = (rc2, s2, t2)"
    by (cases "nftw_calls os s1 vs") auto
  have rc: "rc = 0"
    using ftw_callback_rc [of os s v] fc by simp
  obtain ys where y: "watches s1 = watches s @ ys"
    using ftw_callback_grows [of os s v] fc by auto
  obtain zs where z: "watches s2 = watches s1 @ zs"
    using Cons.IH [of s1] nc by auto
  show ?case
    by (simp add: fc nc rc y z)
qed

lemma failed_install_does_not_stop_the_walk:
  "length (watches s) + length (filter is_dir_visit vs) \<le> MAX_WATCHES \<Longrightarrow>
   v \<in> set vs \<Longrightarrow> is_dir_visit v \<Longrightarrow>
   0 \<le> inotify_add_watch os (fd s) (v_fpath v) WATCH_MASK \<Longrightarrow>
   \<lparr>wd = inotify_add_watch os (fd s) (v_fpath v) WATCH_MASK, path = take (PATH_MAX - 1) (v_fpath v)\<rparr>
     \<in> set (watches (fst (snd (nftw_calls os s vs))))"
proof (induction vs arbitrary: s)
  case Nil
  then show ?case by simp
next
  case (Cons u vs)
  obtain rc s1 t1 where fc: "ftw_callback os s u = (rc, s1, t1)"
    by (cases "ftw_callback os s u") auto
  obtain rc2 s2 t2 where nc: "nftw_calls os s1 vs = (rc2, s2, t2)"
    by (cases "nftw_calls os s1 vs") auto
  have rc: "rc = 0"
    using ftw_callback_rc [of os s u] fc by simp
  have fd1: "fd s1 = fd s"
    using ftw_callback_fd [of os s u] fc by simp
  obtain zs where z: "watches s2 = watches s1 @ zs"
    using nftw_calls_grows [of os s1 vs] nc by auto
  show ?case
  proof (cases "v = u")
    case True
    have cap: "watch_count s < MAX_WATCHES"
      using Cons.prems(1,3) True by (simp add: watch_count_def)
    have "watches s1 = watches s @ [\<lparr>wd = inotify_add_watch os (fd s) (v_fpath v) WATCH_MASK,
                                        path = take (PATH_MAX - 1) (v_fpath v)\<rparr>]"
      using fc True Cons.prems(3) Cons.prems(4)
      by (auto simp: ftw_callback_def is_dir_visit_def add_watch_ok [OF cap])
    then show ?thesis
      by (simp add: fc nc rc z)
  next
    case False
    then have mem: "v \<in> set vs"
      using Cons.prems(2) by simp
    obtain ys where y: "watches s1 = watches s @ ys" "length ys \<le> (if is_dir_visit u then 1 else 0)"
      using ftw_callback_grows [of os s u] fc by auto
    have cap1: "length (watches s1) + length (filter is_dir_visit vs) \<le> MAX_WATCHES"
      using Cons.prems(1) y by (simp split: if_splits)
    have ok1: "0 \<le> inotify_add_watch os (fd s1) (v_fpath v) WATCH_MASK"
      using Cons.prems(4) fd1 by simp
    show ?thesis
      using Cons.IH [OF cap1 mem Cons.prems(3) ok1] fd1
      by (simp add: fc nc rc)
  qed
qed

lemma add_watch_Inr:
  "fst (add_watch os s p) = Inr w \<Longrightarrow>
   w = inotify_add_watch os (fd s) p WATCH_MASK \<and> 0 \<le> w \<and> watch_count s < MAX_WATCHES
   \<and> fst (snd (add_watch os s p)) = s\<lparr>watches := watches s @ [\<lparr>wd = w, path = take (PATH_MAX - 1) p\<rparr>]\<rparr>"
  by (auto simp: add_watch_def Let_def split: if_splits)

lemma add_watch_Inl:
  "fst (add_watch os s p) = Inl e \<Longrightarrow> fst (snd (add_watch os s p)) = s"
  by (auto simp: add_watch_def Let_def split: if_splits)

lemma add_watch_refused:
  "inotify_add_watch os (fd s) p WATCH_MASK < 0 \<Longrightarrow>
   (fst (add_watch os s p) = Inl CapacityExceeded \<or> fst (add_watch os s p) = Inl OsWatchError)
   \<and> fst (snd (add_watch os s p)) = s"
  by (simp add: add_watch_def Let_def)

lemma get_path_by_wd_stored:
  "x \<in> set (watches s) \<Longrightarrow> \<exists>q. get_path_by_wd s (wd x) = Some q"
  using get_path_by_wd_loop_None [of "watches s" "wd x"]
  by (cases "get_path_by_wd_loop (watches s) (wd x)") (auto simp: get_path_by_wd_def)

lemma rm_watches_map: "rm_watches f xs = map (\<lambda>x. Inotify_rm_watch f (wd x)) xs"
  by (induction xs) auto

lemma free_patterns_first:
  "free_patterns [] cs = (map (\<lambda>c. Free (pattern c)) cs, Some (map (\<lambda>c. pattern c \<noteq> None) cs))"
  by (induction cs) (auto split: option.splits)

lemma free_patterns_second:
  "free_patterns (map (\<lambda>c. pattern c \<noteq> None) cs) cs
     = (map (\<lambda>c. Free (pattern c)) (takeWhile (\<lambda>c. pattern c = None) cs),
        if \<forall>c\<in>set cs. pattern c = None then Some (map (\<lambda>c. pattern c \<noteq> None) cs) else None)"
  by (induction cs) (auto split: option.splits)

lemma cleanup_first:
  "cleanup [] s =
     (map (\<lambda>x. Inotify_rm_watch (fd s) (wd x)) (watches s)
        @ (if 0 \<le> fd s then [Close (fd s)] else [])
        @ map (\<lambda>c. Free (pattern c)) (callbacks s),
      Inr (s, pattern_blocks s))"
  by (simp add: cleanup_def free_patterns_first rm_watches_map pattern_blocks_def)

lemma cleanup_second:
  "cleanup (pattern_blocks s) s =
     (map (\<lambda>x. Inotify_rm_watch (fd s) (wd x)) (watches s)
        @ (if 0 \<le> fd s then [Close (fd s)] else [])
        @ map (\<lambda>c. Free (pattern c)) (takeWhile (\<lambda>c. pattern c = None) (callbacks s)),
      if \<forall>c\<in>set (callbacks s). pattern c = None then Inr (s, pattern_blocks s) else Inl Double_free)"
  unfolding cleanup_def pattern_blocks_def free_patterns_second rm_watches_map by simp

lemma cleanup_state:
  "snd (cleanup freed s) = Inr (s2, fl) \<Longrightarrow> s2 = s"
  by (auto simp: cleanup_def split: prod.splits option.splits)

lemma add_watches_fd: "fd (snd (add_watches os s ps)) = fd s"
proof (induction ps arbitrary: s)
  case Nil
  then show ?case by simp
next
  case (Cons p ps)
  obtain r s1 t1 where aw: "add_watch os s p = (r, s1, t1)"
    by (cases "add_watch os s p") auto
  obtain rs s2 where aws: "add_watches os s1 ps = (rs, s2)"
    by (cases "add_watches os s1 ps") auto
  have "fd s1 = fd s"
    using add_watch_fd [of os s p] aw by simp
  then show ?case
    using Cons.IH [of s1] by (simp add: aw aws)
qed

lemma add_watches_handles:
  "map wd (watches (snd (add_watches os s ps)))
     = map wd (watches s)
       @ take (MAX_WATCHES - length (watches s))
           (filter (\<lambda>w. 0 \<le> w) (map (\<lambda>p. inotify_add_watch os (fd s) p WATCH_MASK) ps))"
proof (induction ps arbitrary: s)
  case Nil
  then show ?case by simp
next
  case (Cons p ps)
  let ?w = "inotify_add_watch os (fd s) p WATCH_MASK"
  obtain r s1 t1 where aw: "add_watch os s p = (r, s1, t1)"
    by (cases "add_watch os s p") auto
  obtain rs s2 where aws: "add_watches os s1 ps = (rs, s2)"
    by (cases "add_watches os s1 ps") auto
  have fd1: "fd s1 = fd s"
    using add_watch_fd [of os s p] aw by simp
  have ih: "map wd (watches s2)
     = map wd (watches s1)
       @ take (MAX_WATCHES - length (watches s1))
           (filter (\<lambda>w. 0 \<le> w) (map (\<lambda>p. inotify_add_watch os (fd s) p WATCH_MASK) ps))"
    using Cons.IH [of s1] aws fd1 by simp
  show ?case
  proof (cases "MAX_WATCHES \<le> length (watches s)")
    case True
    then have eq: "s1 = s"
      using aw by (simp add: add_watch_def watch_count_def)
    have aw': "add_watch os s p = (r, s, t1)" and aws': "add_watches os s ps = (rs, s2)"
      using aw aws eq by simp_all
    show ?thesis
      using ih True unfolding eq by (simp add: aw' aws')
  next
    case False
    show ?thesis
    proof (cases "?w < 0")
      case True
      then have eq: "s1 = s"
        using aw False by (simp add: add_watch_def watch_count_def Let_def)
      have aw': "add_watch os s p = (r, s, t1)" and aws': "add_watches os s ps = (rs, s2)"
        using aw aws eq by simp_all
      show ?thesis
        using ih True unfolding eq by (simp add: aw' aws')
    next
      case ok: False
      have w1: "watches s1 = watches s @ [\<lparr>wd = ?w, path = take (PATH_MAX - 1) p\<rparr>]"
        using aw False ok by (auto simp: add_watch_def watch_count_def Let_def)
      obtain n where n: "MAX_WATCHES - length (watches s) = Suc n"
        using False by (cases "MAX_WATCHES - length (watches s)") auto
      then have n': "MAX_WATCHES - Suc (length (watches s)) = n"
        by simp
      show ?thesis
        using ih ok by (simp add: aw aws w1 n n')
    qed
  qed
qed

lemma distinct_accepted:
  "distinct ps \<Longrightarrow> inj_on f {p \<in> set ps. (0::int) \<le> f p} \<Longrightarrow>
   distinct (filter (\<lambda>w. 0 \<le> w) (map f ps))"
proof -
  assume d: "distinct ps" and i: "inj_on f {p \<in> set ps. 0 \<le> f p}"
  have "filter (\<lambda>w. 0 \<le> w) (map f ps) = map f (filter (\<lambda>p. 0 \<le> f p) ps)"
    by (simp add: filter_map comp_def)
  moreover have "distinct (map f (filter (\<lambda>p. 0 \<le> f p) ps))"
    using d i by (simp add: distinct_map)
  ultimately show ?thesis by simp
qed

lemma handle_event_nonrecursive:
  "\<not> recursive_mode s \<Longrightarrow> fst (handle_event os s e) = s"
  by (simp add: handle_event_def process_event_def split: option.splits)

lemma handle_events_nonrecursive:
  "\<not> recursive_mode s \<Longrightarrow> fst (handle_events os s es) = s"
proof (induction es)
  case Nil
  then show ?case by simp
next
  case (Cons e es)
  obtain s1 t1 where he: "handle_event os s e = (s1, t1)"
    by (cases "handle_event os s e") auto
  have eq: "s1 = s"
    using handle_event_nonrecursive [OF Cons.prems, of os e] he by simp
  obtain s2 t2 where hes: "handle_events os s es = (s2, t2)"
    by (cases "handle_events os s es") auto
  have he': "handle_event os s e = (s, t1)"
    using he eq by simp
  show ?case
    using Cons.IH [OF Cons.prems] by (simp add: he' hes)
qed

lemma install_initial_nonrecursive:
  "\<not> recursive_mode s \<Longrightarrow>
   fst (snd (install_initial os s root wk)) = fst (snd (add_watch os s root))"
  by (auto simp: install_initial_def add_watch_def Let_def)

lemma add_watch_recursive_mode: "recursive_mode (fst (snd (add_watch os s p))) = recursive_mode s"
  by (simp add: add_watch_def Let_def)

lemma example_sys_refuses_long_paths: "refuses_long_paths example_sys"
  by (auto simp: refuses_long_paths_def example_sys_def PATH_MAX_def)

lemma accepted_path_is_short:
  "refuses_long_paths os \<Longrightarrow> 0 \<le> inotify_add_watch os f p m \<Longrightarrow> take (PATH_MAX - 1) p = p"
proof -
  assume r: "refuses_long_paths os" and a: "0 \<le> inotify_add_watch os f p m"
  have "PATH_MAX \<le> length p \<Longrightarrow> inotify_add_watch os f p m < 0"
    using r by (simp add: refuses_long_paths_def)
  then have "\<not> PATH_MAX \<le> length p"
    using a by fastforce
  then show ?thesis by simp
qed

lemma auto_watch_behind_pattern_filter:
  assumes "recursive_mode s"
    and "ev_len e \<noteq> 0"
    and "get_path_by_wd s (ev_wd e) = Some p"
    and "ev_mask e AND IN_CREATE \<noteq> 0"
    and "ev_mask e AND IN_ISDIR \<noteq> 0"
  shows "(matches_pattern os s (ev_name e) \<longrightarrow>
            fst (handle_event os s e) = fst (snd (add_watch os s (full_path p (ev_name e))))
            \<and> (watch_count s < MAX_WATCHES
                 \<and> 0 \<le> inotify_add_watch os (fd s) (full_path p (ev_name e)) WATCH_MASK \<longrightarrow>
               watches (fst (handle_event os s e))
                 = watches s @ [\<lparr>wd = inotify_add_watch os (fd s) (full_path p (ev_name e)) WATCH_MASK,
                                  path = full_path p (ev_name e)\<rparr>]))
         \<and> (\<not> matches_pattern os s (ev_name e) \<longrightarrow> handle_event os s e = (s, []))"
proof -
  have st: "matches_pattern os s (ev_name e) \<Longrightarrow>
      fst (handle_event os s e) = fst (snd (add_watch os s (full_path p (ev_name e))))"
    using assms process_event_state [of s "ev_mask e" os p "ev_name e"]
    by (cases "process_event os s (ev_mask e) p (ev_name e)") (simp add: handle_event_def)
  have no: "\<not> matches_pattern os s (ev_name e) \<Longrightarrow> handle_event os s e = (s, [])"
    using assms by (simp add: handle_event_def)
  show ?thesis
    using st no by (auto simp: add_watch_ok full_path_length)
qed

subsection \<open>Full tables\<close>

text \<open>
  Claim C5. With the watch table at \<open>MAX_WATCHES\<close>, \<open>add_watch\<close> takes its capacity
  branch and returns the state it was given, so the live count and the stored entries
  are as before. With the callback table at \<open>MAX_CALLBACKS\<close>, \<open>register_callback\<close>
  fails and returns the state it was given. Below the maximum it appends the entry,
  returns the index the entry then has in the table, and leaves the watch table alone.
\<close>

theorem full_tables_reject:
  "(MAX_WATCHES \<le> watch_count s \<longrightarrow>
      fst (add_watch os s p) = Inl CapacityExceeded \<and> fst (snd (add_watch os s p)) = s)
   \<and> (MAX_CALLBACKS \<le> callback_count s \<longrightarrow>
      register_callback s m q cb = (Inl RegistryFull, s))
   \<and> (callback_count s < MAX_CALLBACKS \<longrightarrow>
      fst (register_callback s m q cb) = Inr (int (callback_count s))
      \<and> callbacks (snd (register_callback s m q cb))
          = callbacks s @ [\<lparr>mask = m, pattern = q, callback = cb\<rparr>]
      \<and> callbacks (snd (register_callback s m q cb)) ! callback_count s
          = \<lparr>mask = m, pattern = q, callback = cb\<rparr>
      \<and> watches (snd (register_callback s m q cb)) = watches s)"
  by (simp add: add_watch_def register_callback_def callback_count_def)

theorem full_tables_reject_witness:
  "fst (add_watch example_sys full_state ''/tmp/w/sub'') = Inl CapacityExceeded
   \<and> fst (snd (add_watch example_sys full_state ''/tmp/w/sub'')) = full_state
   \<and> register_callback full_state IN_DELETE None On_file_deleted = (Inl RegistryFull, full_state)
   \<and> fst (register_callback example_state IN_DELETE (Some ''*.log'') On_file_deleted) = Inr 3
   \<and> callbacks (snd (register_callback example_state IN_DELETE (Some ''*.log'') On_file_deleted)) ! 3
        = \<lparr>mask = IN_DELETE, pattern = Some ''*.log'', callback = On_file_deleted\<rparr>"
  using full_tables_reject [of full_state example_sys "''/tmp/w/sub''" IN_DELETE None On_file_deleted]
    full_tables_reject [of example_state example_sys "''/tmp/w/sub''" IN_DELETE "Some ''*.log''"
      On_file_deleted]
  by (simp add: full_state_def example_state_def watch_count_def callback_count_def
      MAX_WATCHES_def MAX_CALLBACKS_def)

subsection \<open>Dispatch\<close>

text \<open>
  Claim C6. The handler calls that \<open>process_event\<close> makes for an event are, in the order
  of the callback table (which is the order of registration, since \<open>register_callback\<close>
  appends), one call for each entry whose mask shares a bit with the event's mask and
  whose pattern is absent or matches the file name, and no other call. An entry that
  fires does not stop the loop: the entries after it are filtered by the same test.
\<close>

theorem dispatch_in_registration_order:
  "filter is_invoke (snd (process_event os s m p f))
     = map (\<lambda>c. Invoke (callback c) p f) (filter (fires (fnmatch os) m f) (callbacks s))"
proof -
  obtain r s' es where aw: "add_watch os s (full_path p f) = (r, s', es)"
    by (cases "add_watch os s (full_path p f)") auto
  have cb: "callbacks s' = callbacks s"
    using add_watch_callbacks [of os s "full_path p f"] aw by simp
  have ni: "filter is_invoke es = []"
    using add_watch_no_invoke [of os s "full_path p f"] aw by simp
  show ?thesis
    by (simp add: process_event_def aw cb ni report_def event_lines_no_invoke
        run_callbacks_all_invoke run_callbacks_fires)
qed

text \<open>
  Two callbacks with overlapping masks and disjoint patterns, and one event that matches
  both masks and the first pattern only: one handler is called.
\<close>

theorem dispatch_in_registration_order_witness:
  "filter is_invoke
     (snd (process_event example_sys
        (example_state\<lparr>callbacks :=
           [\<lparr>mask = IN_CREATE OR IN_MODIFY, pattern = Some ''*.log'', callback = On_file_modified\<rparr>,
            \<lparr>mask = IN_CREATE, pattern = Some ''*.txt'', callback = On_file_created\<rparr>]\<rparr>)
        IN_CREATE ''/tmp/w'' ''app.log''))
   = [Invoke On_file_modified ''/tmp/w'' ''app.log'']"
  using dispatch_in_registration_order [of example_sys
        "example_state\<lparr>callbacks :=
           [\<lparr>mask = IN_CREATE OR IN_MODIFY, pattern = Some ''*.log'', callback = On_file_modified\<rparr>,
            \<lparr>mask = IN_CREATE, pattern = Some ''*.txt'', callback = On_file_created\<rparr>]\<rparr>"
        IN_CREATE "''/tmp/w''" "''app.log''"]
  by (simp add: fires_def example_sys_def example_state_def IN_CREATE_def IN_MODIFY_def)

subsection \<open>Pattern matcher\<close>

text \<open>
  Claim C7. With no pattern configured \<open>matches_pattern\<close> is true of every file name.
  With patterns configured it is true exactly when \<open>fnmatch\<close>, called with flags \<open>0\<close>,
  reports a match for at least one of them. The function reads the pattern list and
  returns a truth value; it has no state to change, and equal arguments give equal
  results.
\<close>

theorem matches_pattern_glob:
  "(patterns s = [] \<longrightarrow> matches_pattern os s f)
   \<and> (patterns s \<noteq> [] \<longrightarrow>
        matches_pattern os s f = (\<exists>q\<in>set (patterns s). fnmatch os q f 0 = 0))"
  by (simp add: matches_pattern_def pattern_count_def matches_pattern_loop_iff)

theorem matches_pattern_glob_witness:
  "matches_pattern example_sys (example_state\<lparr>patterns := []\<rparr>) ''app.txt''
   \<and> matches_pattern example_sys example_state ''app.log''
   \<and> \<not> matches_pattern example_sys example_state ''app.txt''"
  using matches_pattern_glob [of "example_state\<lparr>patterns := []\<rparr>" example_sys "''app.txt''"]
    matches_pattern_glob [of example_state example_sys "''app.log''"]
    matches_pattern_glob [of example_state example_sys "''app.txt''"]
  by (simp add: example_sys_def example_state_def)

subsection \<open>Events without a name\<close>

text \<open>
  Claim C9. An event whose \<open>len\<close> field is zero is passed over by the loop body: the
  state, and with it the watch table, is returned as it was, and nothing is printed or
  called, whatever the event's mask and the mode.
\<close>

theorem nameless_event_skipped:
  "ev_len e = 0 \<Longrightarrow> handle_event os s e = (s, [])"
  by (simp add: handle_event_def)

theorem nameless_event_skipped_witness:
  "recursive_mode example_state
   \<and> handle_event example_sys example_state
       \<lparr>ev_wd = 1, ev_mask = IN_CREATE OR IN_ISDIR, ev_cookie = 0, ev_len = 0, ev_name = ''sub.log''\<rparr>
     = (example_state, [])"
  using nameless_event_skipped [of
      "\<lparr>ev_wd = 1, ev_mask = IN_CREATE OR IN_ISDIR, ev_cookie = 0, ev_len = 0, ev_name = ''sub.log''\<rparr>"
      example_sys example_state]
  by (simp add: example_state_def)

subsection \<open>The root in the recursive installation\<close>

text \<open>
  Claim C2 says that the recursive installer leaves out the root, so that a tree of \<open>B\<close>
  directories gets \<open>B - 1\<close> further watches. The comment in \<open>ftw_callback\<close> says the same,
  but its test is \<open>level >= 0\<close> and the root is visited at level \<open>0\<close>. Started in
  recursive mode on a directory without subdirectories, \<open>main\<close> installs the root and the
  walk installs it again: one further watch where the claim has none
  (\<open>watch_recursively_installs_every_directory\<close> above gives the count \<open>B\<close> in general,
  and \<open>failed_install_does_not_stop_the_walk\<close> the part of the claim that holds).
\<close>

theorem root_is_installed_again:
  "install_initial example_sys (example_state\<lparr>watches := []\<rparr>) ''/tmp/w''
       (nftw_walk ''/tmp/w'' (Dir ''w'' []))
     = (None,
        example_state\<lparr>watches := [\<lparr>wd = 1, path = ''/tmp/w''\<rparr>, \<lparr>wd = 1, path = ''/tmp/w''\<rparr>]\<rparr>,
        [Print Stdout (Watching_directory ''/tmp/w'' 1),
         Print Stdout Recursive_mode_enabled,
         Print Stdout (Watching_directory ''/tmp/w'' 1),
         Print Stdout (Total_watches 2)])
   \<and> dirs (Dir ''w'' []) = 1"
  by (simp add: install_initial_def watch_recursively_def nftw_def nftw_walk_def ftw_callback_def
      add_watch_def example_state_def example_sys_def watch_count_def MAX_WATCHES_def PATH_MAX_def
      report_def ret_int_def)

subsection \<open>Directories created while watching\<close>

text \<open>
  Claim C1 says that in recursive mode a directory-creation event installs a watch whether
  or not the name passes the pattern filter. The program started as
  \<^verbatim>\<open>fswatcher -r /tmp/w "*.log"\<close> does not do so: \<open>main\<close> calls \<open>process_event\<close>, which
  holds the installation, only when \<open>matches_pattern\<close> holds. When the directory \<open>sub\<close> is
  created under the watched directory, the kernel would accept the new path, and the event
  leaves the state as it was and produces nothing. The start-up walk of the same program
  over a tree that already holds \<open>sub\<close> does install the watch for it, pattern or not.
\<close>

theorem created_directory_is_filtered:
  "recursive_mode example_state
   \<and> ev_len new_directory_event \<noteq> 0
   \<and> ev_mask new_directory_event AND IN_CREATE \<noteq> 0
   \<and> ev_mask new_directory_event AND IN_ISDIR \<noteq> 0
   \<and> get_path_by_wd example_state (ev_wd new_directory_event) = Some ''/tmp/w''
   \<and> inotify_add_watch example_sys (fd example_state) ''/tmp/w/sub'' WATCH_MASK = 2
   \<and> handle_event example_sys example_state new_directory_event = (example_state, [])
   \<and> watches (fst (snd (install_initial example_sys (example_state\<lparr>watches := []\<rparr>) ''/tmp/w''
                           (nftw_walk ''/tmp/w'' (Dir ''w'' [Dir ''sub'' []])))))
       = [\<lparr>wd = 1, path = ''/tmp/w''\<rparr>, \<lparr>wd = 1, path = ''/tmp/w''\<rparr>, \<lparr>wd = 2, path = ''/tmp/w/sub''\<rparr>]"
  by (simp add: example_state_def new_directory_event_def IN_CREATE_def IN_ISDIR_def
      get_path_by_wd_def example_sys_def handle_event_def matches_pattern_def pattern_count_def
      install_initial_def watch_recursively_def nftw_def nftw_walk_def ftw_callback_def
      add_watch_def watch_count_def MAX_WATCHES_def PATH_MAX_def report_def ret_int_def)

subsection \<open>Cleanup\<close>

text \<open>
  Claim C3 says that \<open>cleanup\<close> leaves the registry without live entries and that a second
  call is safe and does nothing. \<open>cleanup\<close> assigns to no variable: after one successful
  install and one \<open>cleanup\<close> the table still counts one entry, which still resolves, and a
  second \<open>cleanup\<close> makes the removal attempt, the \<open>close\<close> and the \<open>free\<close> calls again.
  With patterns on the callbacks the second \<open>cleanup\<close> frees a block that the first has
  freed.
\<close>

theorem cleanup_twice_counterexample:
  "add_watches example_sys (example_state\<lparr>watches := []\<rparr>) [''/tmp/w''] = ([Inr 1], example_state)
   \<and> snd (cleanup [] example_state) = Inr (example_state, [False, False, False])
   \<and> watch_count example_state = 1
   \<and> get_path_by_wd example_state 1 = Some ''/tmp/w''
   \<and> fst (cleanup [False, False, False] example_state)
       = [Inotify_rm_watch 3 1, Close 3, Free None, Free None, Free None]
   \<and> snd (cleanup [] pattern_state) = Inr (pattern_state, [False, True, True])
   \<and> cleanup [False, True, True] pattern_state
       = ([Inotify_rm_watch 3 1, Close 3, Free None], Inl Double_free)"
  by (simp add: example_state_def example_sys_def add_watch_def watch_count_def MAX_WATCHES_def
      PATH_MAX_def report_def cleanup_def get_path_by_wd_def pattern_state_def)

text \<open>
  Claim C3 as amended. After a run of installs from an empty table, the table holds as
  many entries as installs succeeded, and the first \<open>cleanup\<close> makes one removal attempt
  for each entry in table order, closes the descriptor if it is not negative, calls
  \<open>free\<close> on the pattern of each callback in table order, and leaves the state as it was:
  no entry is cleared. A second \<open>cleanup\<close> makes the same removal attempts and the same
  \<open>close\<close> again and then frees the patterns again: it repeats the calls of \<open>free\<close> as long
  as the patterns are null, and at the first callback that has a pattern it is a double
  free.
\<close>

theorem cleanup_once:
  assumes "watches s = []"
  shows "length (watches (snd (add_watches os s ps))) = length (filter succeeded (fst (add_watches os s ps)))
    \<and> cleanup [] (snd (add_watches os s ps))
        = (map (\<lambda>x. Inotify_rm_watch (fd (snd (add_watches os s ps))) (wd x))
               (watches (snd (add_watches os s ps)))
             @ (if 0 \<le> fd (snd (add_watches os s ps)) then [Close (fd (snd (add_watches os s ps)))] else [])
             @ map (\<lambda>c. Free (pattern c)) (callbacks (snd (add_watches os s ps))),
           Inr (snd (add_watches os s ps), pattern_blocks (snd (add_watches os s ps))))
    \<and> cleanup (pattern_blocks (snd (add_watches os s ps))) (snd (add_watches os s ps))
        = (map (\<lambda>x. Inotify_rm_watch (fd (snd (add_watches os s ps))) (wd x))
               (watches (snd (add_watches os s ps)))
             @ (if 0 \<le> fd (snd (add_watches os s ps)) then [Close (fd (snd (add_watches os s ps)))] else [])
             @ map (\<lambda>c. Free (pattern c))
                 (takeWhile (\<lambda>c. pattern c = None) (callbacks (snd (add_watches os s ps)))),
           if \<forall>c\<in>set (callbacks (snd (add_watches os s ps))). pattern c = None
           then Inr (snd (add_watches os s ps), pattern_blocks (snd (add_watches os s ps)))
           else Inl Double_free)"
proof -
  have "length (watches (snd (add_watches os s ps))) = length (filter succeeded (fst (add_watches os s ps)))"
    using add_watches_length [of os s ps] assms by simp
  then show ?thesis
    using cleanup_first [of "snd (add_watches os s ps)"] cleanup_second [of "snd (add_watches os s ps)"]
    by blast
qed

theorem cleanup_once_witness:
  "length (watches (snd (add_watches example_sys (pattern_state\<lparr>watches := []\<rparr>)
                           [''/tmp/w'', ''/nowhere'', ''/tmp/w/sub''])))
     = 2
   \<and> cleanup [] (snd (add_watches example_sys (pattern_state\<lparr>watches := []\<rparr>)
                           [''/tmp/w'', ''/nowhere'', ''/tmp/w/sub'']))
     = ([Inotify_rm_watch 3 1, Inotify_rm_watch 3 2, Close 3,
         Free None, Free (Some ''*.log''), Free (Some ''*.txt'')],
        Inr (pattern_state\<lparr>watches := [\<lparr>wd = 1, path = ''/tmp/w''\<rparr>, \<lparr>wd = 2, path = ''/tmp/w/sub''\<rparr>]\<rparr>,
             [False, True, True]))
   \<and> cleanup [False, True, True]
         (snd (add_watches example_sys (pattern_state\<lparr>watches := []\<rparr>)
                           [''/tmp/w'', ''/nowhere'', ''/tmp/w/sub'']))
     = ([Inotify_rm_watch 3 1, Inotify_rm_watch 3 2, Close 3, Free None], Inl Double_free)"
proof -
  define S where "S = pattern_state\<lparr>watches := [\<lparr>wd = 1, path = ''/tmp/w''\<rparr>,
                                                   \<lparr>wd = 2, path = ''/tmp/w/sub''\<rparr>]\<rparr>"
  have e: "watches (pattern_state\<lparr>watches := []\<rparr>) = []" by simp
  have r: "add_watches example_sys (pattern_state\<lparr>watches := []\<rparr>) [''/tmp/w'', ''/nowhere'', ''/tmp/w/sub'']
     = ([Inr 1, Inl OsWatchError, Inr 2], S)"
    by (simp add: S_def pattern_state_def example_state_def example_sys_def add_watch_def
        watch_count_def MAX_WATCHES_def PATH_MAX_def)
  have b: "pattern_blocks S = [False, True, True]"
    by (simp add: S_def pattern_blocks_def pattern_state_def)
  have f: "fd S = 3" "watches S = [\<lparr>wd = 1, path = ''/tmp/w''\<rparr>, \<lparr>wd = 2, path = ''/tmp/w/sub''\<rparr>]"
    "callbacks S = [\<lparr>mask = IN_CREATE, pattern = None, callback = On_file_created\<rparr>,
        \<lparr>mask = IN_DELETE, pattern = Some ''*.log'', callback = On_file_deleted\<rparr>,
        \<lparr>mask = IN_MODIFY, pattern = Some ''*.txt'', callback = On_file_modified\<rparr>]"
    by (simp_all add: S_def pattern_state_def example_state_def)
  note t = cleanup_once [OF e, of example_sys "[''/tmp/w'', ''/nowhere'', ''/tmp/w/sub'']",
      unfolded r fst_conv snd_conv]
  have c1: "length (watches S) = 2"
    by (simp add: f)
  have c2: "cleanup [] S
      = ([Inotify_rm_watch 3 1, Inotify_rm_watch 3 2, Close 3,
          Free None, Free (Some ''*.log''), Free (Some ''*.txt'')],
         Inr (S, [False, True, True]))"
    using conjunct1 [OF conjunct2 [OF t]] by (simp add: f b)
  have c3: "cleanup [False, True, True] S
      = ([Inotify_rm_watch 3 1, Inotify_rm_watch 3 2, Close 3, Free None], Inl Double_free)"
    using conjunct2 [OF conjunct2 [OF t]] by (simp add: f b)
  show ?thesis
    unfolding r fst_conv snd_conv S_def [symmetric] using c1 c2 c3 by simp
qed

subsection \<open>Distinct descriptors\<close>

text \<open>
  Claim C4 says that the stored descriptors are pairwise distinct in every reachable
  state. \<open>add_watch\<close> stores what the kernel returns without looking at the table, and
  \<open>inotify_add_watch\<close> returns the existing descriptor for a directory that is already
  watched: installing the watched path \<open>/tmp/w\<close> once more stores descriptor \<open>1\<close> twice.
\<close>

theorem repeated_install_counterexample:
  "fst (add_watch example_sys example_state ''/tmp/w'') = Inr 1
   \<and> map wd (watches (fst (snd (add_watch example_sys example_state ''/tmp/w'')))) = [1, 1]
   \<and> \<not> distinct (map wd (watches (fst (snd (add_watch example_sys example_state ''/tmp/w'')))))"
  by (simp add: example_state_def example_sys_def add_watch_def watch_count_def MAX_WATCHES_def)

text \<open>
  Claim C4 as amended. In every state, the lookup of a descriptor that a stored entry
  carries succeeds. After a run of installs from an empty table the stored descriptors
  are, in order, the non-negative values the kernel returned, up to the capacity of the
  table: the registry adds no check of its own. They are therefore pairwise distinct when
  the paths installed are pairwise different and the kernel gives different accepted paths
  different descriptors. Without recursive mode the events install nothing, so the table
  of the running program holds at most the initial watch and its descriptors are
  distinct.
\<close>

theorem stored_handles_come_from_the_kernel:
  "(\<forall>x\<in>set (watches s). \<exists>q. get_path_by_wd s (wd x) = Some q)
   \<and> (watches s = [] \<longrightarrow>
        map wd (watches (snd (add_watches os s ps)))
          = take MAX_WATCHES
              (filter (\<lambda>w. 0 \<le> w) (map (\<lambda>p. inotify_add_watch os (fd s) p WATCH_MASK) ps)))
   \<and> (watches s = [] \<and> distinct ps
        \<and> inj_on (\<lambda>p. inotify_add_watch os (fd s) p WATCH_MASK)
             {p \<in> set ps. 0 \<le> inotify_add_watch os (fd s) p WATCH_MASK} \<longrightarrow>
        distinct (map wd (watches (snd (add_watches os s ps)))))
   \<and> (watches s = [] \<and> \<not> recursive_mode s \<longrightarrow>
        watches (fst (handle_events os (fst (snd (install_initial os s root wk))) evs))
          = watches (fst (snd (install_initial os s root wk)))
        \<and> length (watches (fst (snd (install_initial os s root wk)))) \<le> 1
        \<and> distinct (map wd (watches (fst (handle_events os (fst (snd (install_initial os s root wk))) evs)))))"
proof -
  have a: "\<forall>x\<in>set (watches s). \<exists>q. get_path_by_wd s (wd x) = Some q"
    using get_path_by_wd_stored by blast
  have b: "watches s = [] \<Longrightarrow>
        map wd (watches (snd (add_watches os s ps)))
          = take MAX_WATCHES
              (filter (\<lambda>w. 0 \<le> w) (map (\<lambda>p. inotify_add_watch os (fd s) p WATCH_MASK) ps))"
    using add_watches_handles [of os s ps] by simp
  have c: "watches s = [] \<Longrightarrow> distinct ps \<Longrightarrow>
        inj_on (\<lambda>p. inotify_add_watch os (fd s) p WATCH_MASK)
             {p \<in> set ps. 0 \<le> inotify_add_watch os (fd s) p WATCH_MASK} \<Longrightarrow>
        distinct (map wd (watches (snd (add_watches os s ps))))"
    using b distinct_accepted [of ps "\<lambda>p. inotify_add_watch os (fd s) p WATCH_MASK"]
    by (simp add: distinct_take)
  have d: "watches s = [] \<Longrightarrow> \<not> recursive_mode s \<Longrightarrow>
        watches (fst (handle_events os (fst (snd (install_initial os s root wk))) evs))
          = watches (fst (snd (install_initial os s root wk)))
        \<and> length (watches (fst (snd (install_initial os s root wk)))) \<le> 1
        \<and> distinct (map wd (watches (fst (handle_events os (fst (snd (install_initial os s root wk))) evs))))"
  proof -
    assume e: "watches s = []" and n: "\<not> recursive_mode s"
    let ?s1 = "fst (snd (install_initial os s root wk))"
    have s1: "?s1 = fst (snd (add_watch os s root))"
      using install_initial_nonrecursive [OF n] by simp
    have n1: "\<not> recursive_mode ?s1"
      using n s1 add_watch_recursive_mode [of os s root] by simp
    have ev: "fst (handle_events os ?s1 evs) = ?s1"
      using handle_events_nonrecursive [OF n1] by simp
    have len: "length (watches ?s1) \<le> 1"
      using add_watch_length [of os s root] e s1 by simp
    have "distinct (map wd (watches ?s1))"
      using len by (cases "watches ?s1") auto
    then show ?thesis
      using ev len by simp
  qed
  show ?thesis
    using a b c d by blast
qed

theorem stored_handles_come_from_the_kernel_witness:
  "map wd (watches (snd (add_watches example_sys (example_state\<lparr>watches := []\<rparr>)
                           [''/tmp/w'', ''/nowhere'', ''/tmp/w/sub''])))
     = [1, 2]
   \<and> distinct (map wd (watches (snd (add_watches example_sys (example_state\<lparr>watches := []\<rparr>)
                           [''/tmp/w'', ''/nowhere'', ''/tmp/w/sub'']))))
   \<and> watches (fst (handle_events example_sys
        (fst (snd (install_initial example_sys (example_state\<lparr>recursive_mode := False, watches := []\<rparr>)
                     ''/tmp/w'' (nftw_walk ''/tmp/w'' (Dir ''w'' [Dir ''sub'' []])))))
        [new_directory_event, new_directory_event\<lparr>ev_name := ''sub.log''\<rparr>]))
     = [\<lparr>wd = 1, path = ''/tmp/w''\<rparr>]"
proof -
  let ?ps = "[''/tmp/w'', ''/nowhere'', ''/tmp/w/sub'']"
  let ?s = "example_state\<lparr>watches := []\<rparr>"
  let ?n = "example_state\<lparr>recursive_mode := False, watches := []\<rparr>"
  let ?wk = "nftw_walk ''/tmp/w'' (Dir ''w'' [Dir ''sub'' []])"
  have e: "watches ?s = []" "watches ?n = []" by simp_all
  have d: "distinct ?ps" by simp
  have i: "inj_on (\<lambda>p. inotify_add_watch example_sys (fd ?s) p WATCH_MASK)
             {p \<in> set ?ps. 0 \<le> inotify_add_watch example_sys (fd ?s) p WATCH_MASK}"
    by (auto simp: inj_on_def example_sys_def split: if_splits)
  have n: "\<not> recursive_mode ?n" by simp
  have k: "take MAX_WATCHES (filter (\<lambda>w. 0 \<le> w)
              (map (\<lambda>p. inotify_add_watch example_sys (fd ?s) p WATCH_MASK) ?ps)) = [1, 2]"
    by (simp add: example_sys_def MAX_WATCHES_def)
  have i1: "watches (fst (snd (install_initial example_sys ?n ''/tmp/w'' ?wk))) = [\<lparr>wd = 1, path = ''/tmp/w''\<rparr>]"
    by (simp add: install_initial_def add_watch_def example_state_def example_sys_def watch_count_def
        MAX_WATCHES_def PATH_MAX_def ret_int_def)
  note t1 = stored_handles_come_from_the_kernel [of ?s example_sys ?ps "''/tmp/w''" ?wk "[]"]
  note t2 = stored_handles_come_from_the_kernel [of ?n example_sys ?ps "''/tmp/w''" ?wk
      "[new_directory_event, new_directory_event\<lparr>ev_name := ''sub.log''\<rparr>]"]
  have c1: "map wd (watches (snd (add_watches example_sys ?s ?ps))) = [1, 2]"
    using t1 e(1) unfolding k by blast
  have c2: "distinct (map wd (watches (snd (add_watches example_sys ?s ?ps))))"
    using t1 e(1) d i by blast
  have c3: "watches (fst (handle_events example_sys
        (fst (snd (install_initial example_sys ?n ''/tmp/w'' ?wk)))
        [new_directory_event, new_directory_event\<lparr>ev_name := ''sub.log''\<rparr>]))
     = watches (fst (snd (install_initial example_sys ?n ''/tmp/w'' ?wk)))"
    using t2 e(2) n by blast
  show ?thesis
    using c1 c2 c3 unfolding i1 by blast
qed

subsection \<open>Lookup after installation\<close>

text \<open>
  Claim C8 says that the lookup of an installed path returns exactly that path, and that
  a removed descriptor is absent. The kernel returns the descriptor of a directory that is
  already watched when the directory is installed under another spelling of its path, and
  the lookup returns the first entry with the descriptor: after installing \<open>/tmp/w/\<close>
  the lookup yields \<open>/tmp/w\<close>. Nothing takes an entry out of the table: the descriptor of
  a watch that \<open>cleanup\<close> has removed still resolves.
\<close>

theorem resolve_after_install_counterexample:
  "fst (add_watch example_sys example_state ''/tmp/w/'') = Inr 1
   \<and> get_path_by_wd (fst (snd (add_watch example_sys example_state ''/tmp/w/''))) 1 = Some ''/tmp/w''
   \<and> snd (cleanup [] example_state) = Inr (example_state, [False, False, False])
   \<and> get_path_by_wd example_state 1 = Some ''/tmp/w''"
  by (simp add: example_state_def example_sys_def add_watch_def watch_count_def MAX_WATCHES_def
      PATH_MAX_def cleanup_def get_path_by_wd_def)

text \<open>
  Claim C8 as amended. Under a kernel that refuses paths of \<open>PATH_MAX\<close> characters or more,
  after a successful \<open>add_watch\<close> the lookup of the returned descriptor yields exactly the
  path installed when no entry carried the descriptor before, and otherwise the path of
  the earliest entry that carries it. The lookup of a descriptor that no stored entry
  carries yields nothing. After a \<open>cleanup\<close> that returns, every descriptor resolves as
  it did before.
\<close>

theorem resolve_after_install:
  "(refuses_long_paths os \<and> fst (add_watch os s p) = Inr w \<longrightarrow>
      get_path_by_wd (fst (snd (add_watch os s p))) w
        = (case get_path_by_wd s w of None \<Rightarrow> Some p | Some q \<Rightarrow> Some q))
   \<and> (v \<notin> handles s \<longrightarrow> get_path_by_wd s v = None)
   \<and> (snd (cleanup freed s) = Inr (s2, fl) \<longrightarrow> get_path_by_wd s2 v = get_path_by_wd s v)"
proof -
  have a: "refuses_long_paths os \<Longrightarrow> fst (add_watch os s p) = Inr w \<Longrightarrow>
      get_path_by_wd (fst (snd (add_watch os s p))) w
        = (case get_path_by_wd s w of None \<Rightarrow> Some p | Some q \<Rightarrow> Some q)"
  proof -
    assume r: "refuses_long_paths os" and ok: "fst (add_watch os s p) = Inr w"
    note f = add_watch_Inr [OF ok]
    have "take (PATH_MAX - 1) p = p"
      using accepted_path_is_short [OF r, of "fd s" p WATCH_MASK] f by simp
    then show ?thesis
      using f by (simp add: get_path_by_wd_def get_path_by_wd_loop_append split: option.splits)
  qed
  have b: "v \<notin> handles s \<Longrightarrow> get_path_by_wd s v = None"
    by (simp add: get_path_by_wd_def get_path_by_wd_loop_None handles_def)
  have c: "snd (cleanup freed s) = Inr (s2, fl) \<Longrightarrow> get_path_by_wd s2 v = get_path_by_wd s v"
    using cleanup_state [of freed s s2 fl] by simp
  show ?thesis
    using a b c by blast
qed

theorem resolve_after_install_witness:
  "get_path_by_wd (fst (snd (add_watch example_sys example_state ''/tmp/w/sub''))) 2 = Some ''/tmp/w/sub''
   \<and> get_path_by_wd (fst (snd (add_watch example_sys example_state ''/tmp/w/''))) 1 = Some ''/tmp/w''
   \<and> get_path_by_wd example_state 5 = None"
proof -
  have ok: "fst (add_watch example_sys example_state ''/tmp/w/sub'') = Inr 2"
    "fst (add_watch example_sys example_state ''/tmp/w/'') = Inr 1"
    by (simp_all add: example_state_def example_sys_def add_watch_def watch_count_def MAX_WATCHES_def)
  have g: "get_path_by_wd example_state 2 = None" "get_path_by_wd example_state 1 = Some ''/tmp/w''"
    by (simp_all add: get_path_by_wd_def example_state_def)
  have h: "5 \<notin> handles example_state"
    by (simp add: handles_def example_state_def)
  note t1 = resolve_after_install [of example_sys example_state "''/tmp/w/sub''" 2 5 "[]" example_state "[]"]
  note t2 = resolve_after_install [of example_sys example_state "''/tmp/w/''" 1 5 "[]" example_state "[]"]
  have c1: "get_path_by_wd (fst (snd (add_watch example_sys example_state ''/tmp/w/sub''))) 2
      = (case get_path_by_wd example_state 2 of None \<Rightarrow> Some ''/tmp/w/sub'' | Some q \<Rightarrow> Some q)"
    using t1 example_sys_refuses_long_paths ok(1) by blast
  have c2: "get_path_by_wd (fst (snd (add_watch example_sys example_state ''/tmp/w/''))) 1
      = (case get_path_by_wd example_state 1 of None \<Rightarrow> Some ''/tmp/w/'' | Some q \<Rightarrow> Some q)"
    using t2 example_sys_refuses_long_paths ok(2) by blast
  have c3: "get_path_by_wd example_state 5 = None"
    using t1 h by blast
  show ?thesis
    using c1 c2 c3 by (simp add: g)
qed

subsection \<open>Long paths\<close>

text \<open>
  Claim C10 says that the installation of a path of \<open>PATH_MAX\<close> characters or more stores
  its first \<open>PATH_MAX - 1\<close> characters and that the returned handle resolves to them. No
  such installation succeeds: the kernel refuses the path before \<open>add_watch\<close> reaches its
  copy. With a path of \<open>4096\<close> characters \<open>add_watch\<close> fails, nothing is stored and there
  is no handle to resolve.
\<close>

theorem long_path_counterexample:
  "PATH_MAX \<le> length long_name
   \<and> fst (add_watch example_sys example_state long_name) = Inl OsWatchError
   \<and> fst (snd (add_watch example_sys example_state long_name)) = example_state
   \<and> watches example_state = [\<lparr>wd = 1, path = ''/tmp/w''\<rparr>]"
proof -
  have l: "PATH_MAX \<le> length long_name"
    by (simp add: PATH_MAX_def long_name_def)
  have "inotify_add_watch example_sys (fd example_state) long_name WATCH_MASK < 0"
    using example_sys_refuses_long_paths l by (simp add: refuses_long_paths_def)
  then have "fst (add_watch example_sys example_state long_name) = Inl OsWatchError
      \<and> fst (snd (add_watch example_sys example_state long_name)) = example_state"
    by (simp add: add_watch_def watch_count_def example_state_def MAX_WATCHES_def)
  then show ?thesis
    using l by (simp add: example_state_def)
qed

text \<open>
  Claim C10 as amended. The entry that a successful \<open>add_watch\<close> appends holds the first
  \<open>PATH_MAX - 1\<close> characters of the path, and the lookup of the returned descriptor yields
  them unless an earlier entry carries the descriptor, whose path it then yields. Under a
  kernel that refuses paths of \<open>PATH_MAX\<close> characters or more, \<open>add_watch\<close> on such a path
  fails and leaves the state as it was, so that every path that is stored is the whole
  path it was installed with.
\<close>

theorem stored_path_is_a_prefix:
  "(fst (add_watch os s p) = Inr w \<longrightarrow>
      watches (fst (snd (add_watch os s p))) = watches s @ [\<lparr>wd = w, path = take (PATH_MAX - 1) p\<rparr>]
      \<and> get_path_by_wd (fst (snd (add_watch os s p))) w
          = (case get_path_by_wd s w of None \<Rightarrow> Some (take (PATH_MAX - 1) p) | Some q \<Rightarrow> Some q))
   \<and> (refuses_long_paths os \<and> PATH_MAX \<le> length p \<longrightarrow>
      (fst (add_watch os s p) = Inl CapacityExceeded \<or> fst (add_watch os s p) = Inl OsWatchError)
      \<and> fst (snd (add_watch os s p)) = s)
   \<and> (refuses_long_paths os \<and> fst (add_watch os s p) = Inr w \<longrightarrow> take (PATH_MAX - 1) p = p)"
proof -
  have a: "fst (add_watch os s p) = Inr w \<Longrightarrow>
      watches (fst (snd (add_watch os s p))) = watches s @ [\<lparr>wd = w, path = take (PATH_MAX - 1) p\<rparr>]
      \<and> get_path_by_wd (fst (snd (add_watch os s p))) w
          = (case get_path_by_wd s w of None \<Rightarrow> Some (take (PATH_MAX - 1) p) | Some q \<Rightarrow> Some q)"
    using add_watch_Inr [of os s p w]
    by (simp add: get_path_by_wd_def get_path_by_wd_loop_append split: option.splits)
  have b: "refuses_long_paths os \<Longrightarrow> PATH_MAX \<le> length p \<Longrightarrow>
      (fst (add_watch os s p) = Inl CapacityExceeded \<or> fst (add_watch os s p) = Inl OsWatchError)
      \<and> fst (snd (add_watch os s p)) = s"
    using add_watch_refused [of os s p] by (simp add: refuses_long_paths_def)
  have c: "refuses_long_paths os \<Longrightarrow> fst (add_watch os s p) = Inr w \<Longrightarrow> take (PATH_MAX - 1) p = p"
    using add_watch_Inr [of os s p w] accepted_path_is_short [of os "fd s" p WATCH_MASK] by simp
  show ?thesis
    using a b c by blast
qed

theorem stored_path_is_a_prefix_witness:
  "fst (add_watch example_sys example_state long_name) = Inl OsWatchError
   \<and> fst (snd (add_watch example_sys example_state long_name)) = example_state
   \<and> watches (fst (snd (add_watch example_sys example_state ''/tmp/w/sub'')))
       = [\<lparr>wd = 1, path = ''/tmp/w''\<rparr>, \<lparr>wd = 2, path = ''/tmp/w/sub''\<rparr>]"
proof -
  have l: "PATH_MAX \<le> length long_name"
    by (simp add: PATH_MAX_def long_name_def)
  have ok: "fst (add_watch example_sys example_state ''/tmp/w/sub'') = Inr 2"
    by (simp add: example_state_def example_sys_def add_watch_def watch_count_def MAX_WATCHES_def)
  have cap: "fst (add_watch example_sys example_state long_name) \<noteq> Inl CapacityExceeded"
    by (simp add: add_watch_def watch_count_def example_state_def MAX_WATCHES_def Let_def)
  note t1 = stored_path_is_a_prefix [of example_sys example_state long_name 0]
  note t2 = stored_path_is_a_prefix [of example_sys example_state "''/tmp/w/sub''" 2]
  have c1: "fst (add_watch example_sys example_state long_name) = Inl OsWatchError
      \<and> fst (snd (add_watch example_sys example_state long_name)) = example_state"
    using t1 example_sys_refuses_long_paths l cap by blast
  have c2: "watches (fst (snd (add_watch example_sys example_state ''/tmp/w/sub'')))
      = watches example_state @ [\<lparr>wd = 2, path = take (PATH_MAX - 1) ''/tmp/w/sub''\<rparr>]"
    using t2 ok by blast
  have c3: "take (PATH_MAX - 1) ''/tmp/w/sub'' = ''/tmp/w/sub''"
    using t2 example_sys_refuses_long_paths ok by blast
  show ?thesis
    using c1 c2 unfolding c3 by (simp add: example_state_def)
qed

end
